theory Spec2Isabelle
  imports Complex_Main "HOL-Library.Multiset"
begin

section \<open>Results (lib/results.go)\<close>

text \<open>
  \<^verbatim>\<open>type Result struct { Code int; Timestamp time.Time; Latency time.Duration;
  BytesOut, BytesIn uint64; Error string }\<close>.
  A \<^verbatim>\<open>time.Time\<close> is an instant, here its count of nanoseconds on the time line; a
  \<^verbatim>\<open>time.Duration\<close> is an int64 count of nanoseconds, here the integer it holds.
\<close>

record Result =
  Code :: int
  Timestamp :: int
  Latency :: int
  BytesOut :: nat
  BytesIn :: nat
  Error :: string

type_synonym Results = "Result list"

section \<open>Collect (lib/results.go)\<close>

text \<open>
  A reader is modelled by what the gob decoder makes of it: the outcomes of the successive
  calls of \<^verbatim>\<open>dec.Decode(&r)\<close> before the one that returns \<^verbatim>\<open>io.EOF\<close>. An outcome is a
  decoded record or an error other than \<^verbatim>\<open>io.EOF\<close>. A reader whose decoder never returns
  \<^verbatim>\<open>io.EOF\<close> is outside this model.
\<close>

datatype item = Rec Result | Corrupt string

type_synonym reader = "item list"

datatype decoded = Decoded Result | Failed string | EOF

fun Decode :: "reader \<Rightarrow> decoded \<times> reader" where
  "Decode [] = (EOF, [])"
| "Decode (Rec r # rest) = (Decoded r, rest)"
| "Decode (Corrupt e # rest) = (Failed e, rest)"

text \<open>
  The goroutines of \<^verbatim>\<open>Collect\<close>: the caller's own (the loop over \<^verbatim>\<open>in\<close>, then the start
  of the closing goroutine), one decoding goroutine per reader, and the closing goroutine
  (\<^verbatim>\<open>wg.Wait(); close(resc); close(errs)\<close>).
\<close>

datatype task = Running reader | Finished

datatype closer = NotStarted | Waiting | ClosedResc | ClosedBoth

record collector =
  pending :: "reader list"
  tasks :: "task list"
  wg :: int
  closer :: closer
  resc :: "Result list"
  errs :: "string list"
  panicked :: bool

text \<open>
  \<open>pending\<close> holds the readers the loop has not reached yet, \<open>wg\<close> the counter of the
  \<^verbatim>\<open>sync.WaitGroup\<close>, \<open>resc\<close> and \<open>errs\<close> what the consumer has received on each channel so
  far, in order. Both channels are unbuffered, so a send and its receive are one step; the
  consumer is taken to drain both channels. A send on a closed channel panics.
\<close>

definition Collect :: "reader list \<Rightarrow> collector" where
  "Collect ins = \<lparr>pending = ins, tasks = [], wg = 0, closer = NotStarted,
     resc = [], errs = [], panicked = False\<rparr>"

definition resc_closed :: "collector \<Rightarrow> bool" where
  "resc_closed s = (closer s = ClosedResc \<or> closer s = ClosedBoth)"

definition errs_closed :: "collector \<Rightarrow> bool" where
  "errs_closed s = (closer s = ClosedBoth)"

datatype actor = Caller | Worker nat | Closer

fun worker_step :: "nat \<Rightarrow> collector \<Rightarrow> collector option" where
  "worker_step i s =
     (if panicked s \<or> length (tasks s) \<le> i then None
      else case tasks s ! i of
        Finished \<Rightarrow> None
      | Running rd \<Rightarrow>
          (case Decode rd of
             (EOF, _) \<Rightarrow> Some (s\<lparr>wg := wg s - 1, tasks := (tasks s)[i := Finished]\<rparr>)
           | (Failed e, rd') \<Rightarrow>
               if errs_closed s then Some (s\<lparr>panicked := True\<rparr>)
               else Some (s\<lparr>errs := errs s @ [e], tasks := (tasks s)[i := Running rd']\<rparr>)
           | (Decoded r, rd') \<Rightarrow>
               if resc_closed s then Some (s\<lparr>panicked := True\<rparr>)
               else Some (s\<lparr>resc := resc s @ [r], tasks := (tasks s)[i := Running rd']\<rparr>)))"

fun step :: "actor \<Rightarrow> collector \<Rightarrow> collector option" where
  "step Caller s =
     (if panicked s then None
      else case pending s of
        src # rest \<Rightarrow>
          Some (s\<lparr>pending := rest, wg := wg s + 1, tasks := tasks s @ [Running src]\<rparr>)
      | [] \<Rightarrow> if closer s = NotStarted then Some (s\<lparr>closer := Waiting\<rparr>) else None)"
| "step (Worker i) s = worker_step i s"
| "step Closer s =
     (if panicked s then None
      else case closer s of
        NotStarted \<Rightarrow> None
      | Waiting \<Rightarrow> if wg s = 0 then Some (s\<lparr>closer := ClosedResc\<rparr>) else None
      | ClosedResc \<Rightarrow> Some (s\<lparr>closer := ClosedBoth\<rparr>)
      | ClosedBoth \<Rightarrow> None)"

text \<open>A schedule is the order in which the goroutines take their steps.\<close>

fun run :: "actor list \<Rightarrow> collector \<Rightarrow> collector option" where
  "run [] s = Some s"
| "run (a # as) s = (case step a s of None \<Rightarrow> None | Some s' \<Rightarrow> run as s')"

fun remaining :: "task \<Rightarrow> item list" where
  "remaining (Running rd) = rd"
| "remaining Finished = []"

fun records_of :: "item list \<Rightarrow> Result list" where
  "records_of [] = []"
| "records_of (Rec r # xs) = r # records_of xs"
| "records_of (Corrupt e # xs) = records_of xs"

fun errors_of :: "item list \<Rightarrow> string list" where
  "errors_of [] = []"
| "errors_of (Rec r # xs) = errors_of xs"
| "errors_of (Corrupt e # xs) = e # errors_of xs"

text \<open>What is still to be decoded, over all goroutines and the readers not yet started.\<close>

definition outstanding :: "collector \<Rightarrow> item multiset" where
  "outstanding s = mset (concat (map remaining (tasks s))) + mset (concat (pending s))"

definition running :: "collector \<Rightarrow> nat" where
  "running s = length (filter (\<lambda>t. t \<noteq> Finished) (tasks s))"

definition collect_inv :: "reader list \<Rightarrow> collector \<Rightarrow> bool" where
  "collect_inv ins s =
     (\<not> panicked s \<and> wg s = int (running s)
      \<and> (closer s \<noteq> NotStarted \<longrightarrow> pending s = [])
      \<and> (resc_closed s \<longrightarrow> running s = 0)
      \<and> length (tasks s) + length (pending s) = length ins
      \<and> mset (map Rec (resc s)) + mset (map Corrupt (errs s)) + outstanding s
          = mset (concat ins))"

fun closer_rank :: "closer \<Rightarrow> nat" where
  "closer_rank NotStarted = 3"
| "closer_rank Waiting = 2"
| "closer_rank ClosedResc = 1"
| "closer_rank ClosedBoth = 0"

fun task_rank :: "task \<Rightarrow> nat" where
  "task_rank (Running rd) = Suc (length rd)"
| "task_rank Finished = 0"

definition steps_left :: "collector \<Rightarrow> nat" where
  "steps_left s = sum_list (map (\<lambda>src. length src + 2) (pending s))
     + sum_list (map task_rank (tasks s)) + closer_rank (closer s)"

section \<open>Reporters (lib/reporters.go)\<close>

subsection \<open>Go values and the standard library\<close>

text \<open>
  A reporter returns the Go pair \<^verbatim>\<open>([]byte, error)\<close>: the payload is \<open>None\<close> for the nil
  slice and \<open>Some bs\<close> for a slice of bytes (\<open>Some []\<close> is \<^verbatim>\<open>[]byte{}\<close>), the error is
  \<open>None\<close> for nil. A run-time panic is the left injection of the result.
\<close>

datatype error = Err string

type_synonym report = "string option \<times> error option"

definition NL :: string where "NL = [CHR 0x0A]"
definition TAB :: string where "TAB = [CHR 0x09]"
definition DQ :: string where "DQ = [CHR 0x22]"
definition SQ :: string where "SQ = [CHR 0x27]"
definition BSL :: string where "BSL = [CHR 0x5C]"

text \<open>
  \<^verbatim>\<open>%d\<close> of an unsigned and of a signed integer, and \<^verbatim>\<open>{{.Code}}\<close> in a template: the
  decimal digits, with a minus sign for a negative value.
\<close>

fun dec_nat :: "nat \<Rightarrow> string" where
  "dec_nat n = (if n < 10 then [''0123456789'' ! n]
                else dec_nat (n div 10) @ [''0123456789'' ! (n mod 10)])"

definition dec_int :: "int \<Rightarrow> string" where
  "dec_int i = (if i < 0 then CHR ''-'' # dec_nat (nat (- i)) else dec_nat (nat i))"

text \<open>
  What the reporters take from Go's standard library and from the rest of the package is a
  parameter of the model:
  \<^item> \<open>fmtDuration\<close>: \<^verbatim>\<open>%s\<close> of a \<^verbatim>\<open>time.Duration\<close> (its \<^verbatim>\<open>String\<close> method);
  \<^item> \<open>fmtFloat2\<close>: \<^verbatim>\<open>%.2f\<close> of a float64;
  \<^item> \<open>fmtSeconds d\<close>: \<^verbatim>\<open>strconv.FormatFloat(d.Seconds(), 'f', -1, 32)\<close> of a duration \<open>d\<close>;
  \<^item> \<open>fmtMillis d\<close>: \<^verbatim>\<open>strconv.FormatFloat(d.Seconds()*1000, 'f', -1, 32)\<close>;
  \<^item> \<open>fmtTime\<close>: \<^verbatim>\<open>{{.Timestamp}}\<close>, the \<^verbatim>\<open>String\<close> method of a \<^verbatim>\<open>time.Time\<close>;
  \<^item> \<open>tabwriter\<close>: the \<^verbatim>\<open>text/tabwriter\<close> writer of \<^verbatim>\<open>ReportText\<close>, from the text written
    to it to the bytes that reached \<^verbatim>\<open>out\<close> and the error of \<^verbatim>\<open>w.Flush()\<close>;
  \<^item> \<open>Marshal\<close>: \<^verbatim>\<open>json.Marshal\<close> on a \<^verbatim>\<open>*Metrics\<close>;
  \<^item> \<open>dygraphJSLibSrc\<close>: the bytes of the charting library (a function of the package that
    is not among the sources);
  \<^item> \<open>Request\<close>: the evaluation of \<^verbatim>\<open>.Request.Method\<close> and \<^verbatim>\<open>.Request.URL\<close> on a record
    in the template. \<^verbatim>\<open>Result\<close> as lib/results.go declares it has no field \<^verbatim>\<open>Request\<close>, and
    \<^verbatim>\<open>text/template\<close> fails on a field that a struct does not have; the evaluation is a
    parameter so that what is proved holds for that declaration and for one that carries
    the request.
\<close>

record 'm env =
  fmtDuration :: "int \<Rightarrow> string"
  fmtFloat2 :: "rat \<Rightarrow> string"
  fmtSeconds :: "int \<Rightarrow> string"
  fmtMillis :: "int \<Rightarrow> string"
  fmtTime :: "int \<Rightarrow> string"
  tabwriter :: "string \<Rightarrow> string \<times> error option"
  Marshal :: "'m \<Rightarrow> report"
  dygraphJSLibSrc :: string
  Request :: "Result \<Rightarrow> error + string \<times> string"

subsection \<open>Metrics\<close>

text \<open>
  Modelled from the spec: the type \<^verbatim>\<open>Metrics\<close> (metrics.go is not among the sources), with
  the fields that \<^verbatim>\<open>ReportText\<close> reads and the spec's section 3 lists: the request count,
  the durations, the latency quintet, byte totals and means, the success ratio, the
  status-code histogram (a Go map from the code as a string to its count) and the error
  set. A float64 is modelled by a rational number.
\<close>

record Metrics =
  Requests :: nat
  Duration :: int
  Wait :: int
  Latencies_Mean :: int
  Latencies_P50 :: int
  Latencies_P95 :: int
  Latencies_P99 :: int
  Latencies_Max :: int
  BytesIn_Total :: nat
  BytesIn_Mean :: rat
  BytesOut_Total :: nat
  BytesOut_Mean :: rat
  Success :: rat
  StatusCodes :: "string \<rightharpoonup> int"
  Errors :: "string list"

text \<open>The sum of two int64 values wraps around.\<close>

definition int64 :: "int \<Rightarrow> int" where
  "int64 x = (x + 2 ^ 63) mod 2 ^ 64 - 2 ^ 63"

subsection \<open>ReportText\<close>


text \<open>Lines 38 to 41: the histogram's cell, one \<^verbatim>\<open>"%s:%d  "\<close> for each entry visited.\<close>

definition status_codes :: "(string \<times> int) list \<Rightarrow> string" where
  "status_codes kvs =
     ''Status Codes'' @ TAB @ ''[code:count]'' @ TAB
     @ concat (map (\<lambda>(code, count). code @ '':'' @ dec_int count @ ''  '') kvs)"

text \<open>Lines 31 to 37: the lines above the histogram.\<close>

definition report_head :: "'m env \<Rightarrow> Metrics \<Rightarrow> string" where
  "report_head f m =
     ''Requests'' @ TAB @ ''[total]'' @ TAB @ dec_nat (Requests m) @ NL
     @ ''Duration'' @ TAB @ ''[total, attack, wait]'' @ TAB
       @ fmtDuration f (int64 (Duration m + Wait m)) @ '', '' @ fmtDuration f (Duration m)
       @ '', '' @ fmtDuration f (Wait m) @ NL
     @ ''Latencies'' @ TAB @ ''[mean, 50, 95, 99, max]'' @ TAB
       @ fmtDuration f (Latencies_Mean m) @ '', '' @ fmtDuration f (Latencies_P50 m)
       @ '', '' @ fmtDuration f (Latencies_P95 m) @ '', '' @ fmtDuration f (Latencies_P99 m)
       @ '', '' @ fmtDuration f (Latencies_Max m) @ NL
     @ ''Bytes In'' @ TAB @ ''[total, mean]'' @ TAB
       @ dec_nat (BytesIn_Total m) @ '', '' @ fmtFloat2 f (BytesIn_Mean m) @ NL
     @ ''Bytes Out'' @ TAB @ ''[total, mean]'' @ TAB
       @ dec_nat (BytesOut_Total m) @ '', '' @ fmtFloat2 f (BytesOut_Mean m) @ NL
     @ ''Success'' @ TAB @ ''[ratio]'' @ TAB @ fmtFloat2 f (Success m * 100) @ ''%'' @ NL"

text \<open>Lines 42 to 45: \<^verbatim>\<open>Fprintln(w, "\nError Set:")\<close> and one line for each error.\<close>

definition error_set :: "string list \<Rightarrow> string" where
  "error_set es = NL @ ''Error Set:'' @ NL @ concat (map (\<lambda>e. e @ NL) es)"

text \<open>All that \<^verbatim>\<open>ReportText\<close> writes to the tabwriter, in order.\<close>

definition report_text :: "'m env \<Rightarrow> Metrics \<Rightarrow> (string \<times> int) list \<Rightarrow> string" where
  "report_text f m kvs = report_head f m @ status_codes kvs @ error_set (Errors m)"

text \<open>
  \<^verbatim>\<open>ReportText\<close>, from \<^verbatim>\<open>m := NewMetrics(r)\<close> on: \<open>m\<close> is the metrics of the collection and
  \<open>kvs\<close> the order of the \<^verbatim>\<open>range\<close> in this run.
\<close>

definition ReportText :: "'m env \<Rightarrow> Metrics \<Rightarrow> (string \<times> int) list \<Rightarrow> report" where
  "ReportText f m kvs =
     (case tabwriter f (report_text f m kvs) of
        (out, Some err) \<Rightarrow> (Some [], Some err)
      | (out, None) \<Rightarrow> (Some out, None))"

subsection \<open>ReportJSON\<close>

definition ReportJSON :: "Metrics env \<Rightarrow> Metrics \<Rightarrow> report" where
  "ReportJSON f m = Marshal f m"

subsection \<open>ReportPlot: the data series\<close>

text \<open>
  \<^verbatim>\<open>t.Sub(u)\<close> of package time: the duration \<open>t - u\<close>, or the largest or smallest duration
  when the difference does not fit an int64 of nanoseconds.
\<close>

definition Sub :: "int \<Rightarrow> int \<Rightarrow> int" where
  "Sub t u = (if t - u < - (2 ^ 63) then - (2 ^ 63)
              else if 2 ^ 63 - 1 < t - u then 2 ^ 63 - 1 else t - u)"

text \<open>An index into a slice panics when it is out of range.\<close>

definition index :: "'a list \<Rightarrow> nat \<Rightarrow> string + 'a" where
  "index xs i = (if i < length xs then Inr (xs ! i) else Inl ''index out of range'')"

text \<open>Lines 63 to 70: the text of one point, from the first record and the record itself.\<close>

definition point :: "'m env \<Rightarrow> Result \<Rightarrow> Result \<Rightarrow> string" where
  "point f r0 ri =
     (let point = ''['' @ fmtSeconds f (Sub (Timestamp ri) (Timestamp r0)) @ '',''
      in if Error ri = ''''
         then point @ ''NaN,'' @ fmtMillis f (Latency ri) @ ''],''
         else point @ fmtMillis f (Latency ri) @ '',NaN],'')"

text \<open>Lines 62 to 73: the loop over the indices, writing each point to \<^verbatim>\<open>series\<close>.\<close>

function series_loop :: "'m env \<Rightarrow> Results \<Rightarrow> nat \<Rightarrow> string \<Rightarrow> string + string" where
  "series_loop f r i series =
     (if i < length r then
        (case index r i of
           Inl p \<Rightarrow> Inl p
         | Inr ri \<Rightarrow>
             (case index r 0 of
                Inl p \<Rightarrow> Inl p
              | Inr r0 \<Rightarrow> series_loop f r (i + 1) (series @ point f r0 ri)))
      else Inr series)"
  by pat_completeness auto
termination
  by (relation "measure (\<lambda>(f, r, i, series). length r - i)") auto

text \<open>Lines 75 to 77: the trailing comma is removed.\<close>

definition truncate_comma :: "string \<Rightarrow> string" where
  "truncate_comma series = (if length series > 0 then take (length series - 1) series else series)"

subsection \<open>ReportPlot: the template\<close>

text \<open>
  The text of \<^verbatim>\<open>plotsTemplate\<close> between its actions, in the order of the source. The
  template is of package \<^verbatim>\<open>text/template\<close>: the text is copied as it stands and the values
  are printed without escaping.
\<close>

definition tpl_head :: string where
  "tpl_head =
     ''<!doctype>'' @ NL
     @ ''<html>'' @ NL
     @ ''<head>'' @ NL
     @ ''  <title>Vegeta Plots</title>'' @ NL
     @ ''</head>'' @ NL
     @ ''<body>'' @ NL
     @ ''  <div id='' @ DQ @ ''latencies'' @ DQ @ '' style='' @ DQ @ ''font-family: Courier; width: 100%%; height: 600px'' @ DQ @ ''></div>'' @ NL
     @ ''  <a href='' @ DQ @ ''#'' @ DQ @ '' download='' @ DQ @ ''vegetaplot.png'' @ DQ @ '' onclick='' @ DQ @ ''this.href = document.getElementsByTagName('' @ SQ @ ''canvas'' @ SQ @ '')[0].toDataURL('' @ SQ @ ''image/png'' @ SQ @ '').replace(/^data:image'' @ BSL @ ''/[^;]/, '' @ SQ @ ''data:application/octet-stream'' @ SQ @ '')'' @ DQ @ ''>Download as PNG</a>'' @ NL
     @ ''  <script>'' @ NL
     @ TAB"

definition tpl_chart :: string where
  "tpl_chart =
     NL
     @ ''  </script>'' @ NL
     @ ''  <script>'' @ NL
     @ ''  var g = new Dygraph('' @ NL
     @ ''    document.getElementById('' @ DQ @ ''latencies'' @ DQ @ ''),'' @ NL
     @ ''    ''"

definition tpl_options :: string where
  "tpl_options =
     '','' @ NL
     @ ''    {'' @ NL
     @ ''      title: '' @ SQ @ ''Vegeta Plot'' @ SQ @ '','' @ NL
     @ ''      labels: ['' @ SQ @ ''Seconds'' @ SQ @ '', '' @ SQ @ ''ERR'' @ SQ @ '', '' @ SQ @ ''OK'' @ SQ @ ''],'' @ NL
     @ ''      ylabel: '' @ SQ @ ''Latency (ms)'' @ SQ @ '','' @ NL
     @ ''      xlabel: '' @ SQ @ ''Seconds elapsed'' @ SQ @ '','' @ NL
     @ ''      showRoller: true,'' @ NL
     @ ''      colors: ['' @ SQ @ ''#FA7878'' @ SQ @ '', '' @ SQ @ ''#8AE234'' @ SQ @ ''],'' @ NL
     @ ''      legend: '' @ SQ @ ''always'' @ SQ @ '','' @ NL
     @ ''      logscale: true,'' @ NL
     @ ''      strokeWidth: 1.3,'' @ NL
     @ ''      showRangeSelector: true,'' @ NL
     @ ''      rangeSelectorHeight: 30,'' @ NL
     @ ''      zoomCallback: function(minX, maxX, yRanges) {'' @ NL
     @ ''        var table = document.getElementsByTagName('' @ SQ @ ''table'' @ SQ @ '')[0];'' @ NL
     @ ''        filterTable('' @ DQ @ ''flash'' @ DQ @ '', table)'' @ NL
     @ ''      }'' @ NL
     @ ''    }'' @ NL
     @ ''  );'' @ NL
     @ NL
     @ ''  g.ready(function() {'' @ NL
     @ ''    console.log('' @ DQ @ ''Data loaded. x-axis range is:'' @ DQ @ '', g.xAxisRange());'' @ NL
     @ ''  });'' @ NL
     @ NL
     @ ''  function filterTable(term, table) {'' @ NL
     @ NL
     @ ''    var terms = term.toLowerCase().split('' @ DQ @ '' '' @ DQ @ '');'' @ NL
     @ ''    for (var r = 1; r < table.rows.length; r++) {'' @ NL
     @ ''      var display = '' @ SQ @ SQ @ '';'' @ NL
     @ ''      for (var i = 0; i < terms.length; i++) {'' @ NL
     @ ''        if (table.rows[r].innerHTML.replace(/<[^>]+>/g, '' @ DQ @ DQ @ '').toLowerCase().indexOf(terms[i]) < 0) {'' @ NL
     @ ''          display = '' @ SQ @ ''none'' @ SQ @ '';'' @ NL
     @ ''        }'' @ NL
     @ ''        table.rows[r].style.display = display;'' @ NL
     @ ''      }'' @ NL
     @ ''    }'' @ NL
     @ ''  }'' @ NL
     @ NL
     @ ''  </script>'' @ NL
     @ ''</body>'' @ NL
     @ ''<table style='' @ DQ @ ''text:align-center'' @ DQ @ ''>'' @ NL
     @ ''  <tr>'' @ NL
     @ ''    <th>Timestamp</th>'' @ NL
     @ ''    <th>Return Code</th>'' @ NL
     @ ''    <th>Method </th>'' @ NL
     @ ''    <th>URL </th>'' @ NL
     @ ''    <th>In (bytes)</th>'' @ NL
     @ ''    <th>Out (bytes)</th>'' @ NL
     @ ''  </tr>'' @ NL
     @ ''  ''"

definition row_open :: string where
  "row_open =
     NL
     @ ''    <tr bgcolor='' @ DQ"

definition color_ok :: string where
  "color_ok =
     '' #8AE234 ''"

definition color_err :: string where
  "color_err =
     '' #FA7878 ''"

definition row_first_cell :: string where
  "row_first_cell =
     DQ @ '' >'' @ NL
     @ ''    <td align='' @ DQ @ ''center'' @ DQ @ '' valign='' @ DQ @ ''middle'' @ DQ @ ''>''"

definition next_cell :: string where
  "next_cell =
     ''</td>'' @ NL
     @ ''    <td align='' @ DQ @ ''center'' @ DQ @ '' valign='' @ DQ @ ''middle'' @ DQ @ ''>''"

definition url_cell :: string where
  "url_cell =
     ''</td>'' @ NL
     @ ''    <td align='' @ DQ @ ''left'' @ DQ @ '' valign='' @ DQ @ ''middle'' @ DQ @ ''><a href='' @ DQ"

definition url_text :: string where
  "url_text =
     DQ @ ''>''"

definition url_close :: string where
  "url_close =
     ''</a></td>'' @ NL
     @ ''    <td align='' @ DQ @ ''center'' @ DQ @ '' valign='' @ DQ @ ''middle'' @ DQ @ ''>''"

definition row_close :: string where
  "row_close =
     ''</td>'' @ NL
     @ ''    </tr>'' @ NL
     @ ''  ''"

definition no_results :: string where
  "no_results =
     NL
     @ ''   <tr><b>No Results found</b></tr>'' @ NL
     @ ''  ''"

definition tpl_tail :: string where
  "tpl_tail =
     NL
     @ ''  </table>'' @ NL
     @ ''</html>''"

text \<open>\<^verbatim>\<open>{{ if eq .Code 200 }} #8AE234 {{else}} #FA7878 {{end}}\<close>\<close>

definition row_color :: "Result \<Rightarrow> string" where
  "row_color r = (if Code r = 200 then color_ok else color_err)"

text \<open>
  The body of \<^verbatim>\<open>{{range .Results}}\<close> on one record: what is written, and the error that
  stops the execution if a field cannot be evaluated.
\<close>

definition exec_row :: "'m env \<Rightarrow> Result \<Rightarrow> string \<times> error option" where
  "exec_row f r =
     (let written = row_open @ row_color r @ row_first_cell @ fmtTime f (Timestamp r)
            @ next_cell @ dec_int (Code r) @ next_cell
      in case Request f r of
           Inl err \<Rightarrow> (written, Some err)
         | Inr (method, url) \<Rightarrow>
             (written @ method @ url_cell @ url @ url_text @ url @ url_close
                @ dec_nat (BytesIn r) @ next_cell @ dec_nat (BytesOut r) @ row_close, None))"

fun exec_rows :: "'m env \<Rightarrow> Results \<Rightarrow> string \<times> error option" where
  "exec_rows f [] = ([], None)"
| "exec_rows f (r # rs) =
     (case exec_row f r of
        (w, Some err) \<Rightarrow> (w, Some err)
      | (w, None) \<Rightarrow> (case exec_rows f rs of (w', e) \<Rightarrow> (w @ w', e)))"

text \<open>\<^verbatim>\<open>{{range .Results}} ... {{ else }} ... {{end}}\<close>: the else branch is for no records.\<close>

definition exec_range :: "'m env \<Rightarrow> Results \<Rightarrow> string \<times> error option" where
  "exec_range f rs = (if rs = [] then (no_results, None) else exec_rows f rs)"

text \<open>
  \<^verbatim>\<open>plotsTemplate.Execute(&out, ctx)\<close>: what was written to \<^verbatim>\<open>out\<close> and the error returned.
\<close>

definition Execute :: "'m env \<Rightarrow> string \<Rightarrow> string \<Rightarrow> Results \<Rightarrow> string \<times> error option" where
  "Execute f JsSrc Series rs =
     (let before = tpl_head @ JsSrc @ tpl_chart @ ''['' @ Series @ '']'' @ tpl_options
      in case exec_range f rs of
           (rows, Some err) \<Rightarrow> (before @ rows, Some err)
         | (rows, None) \<Rightarrow> (before @ rows @ tpl_tail, None))"

definition ReportPlot :: "'m env \<Rightarrow> Results \<Rightarrow> string + report" where
  "ReportPlot f r =
     (case series_loop f r 0 [] of
        Inl p \<Rightarrow> Inl p
      | Inr series \<Rightarrow>
          (case Execute f (dygraphJSLibSrc f) (truncate_comma series) r of
             (out, Some err) \<Rightarrow> Inr (None, Some err)
           | (out, None) \<Rightarrow> Inr (Some out, None)))"

subsection \<open>Reporter and ReporterFunc\<close>



declare dec_nat.simps [simp del]

declare series_loop.simps [simp del]

subsection \<open>The two latency slots of a point\<close>

text \<open>
  The chart's labels are \<^verbatim>\<open>['Seconds', 'ERR', 'OK']\<close>: after the seconds, a point has the slot
  of the error series and then the slot of the success series. A slot holds a latency or
  the missing-value marker \<^verbatim>\<open>NaN\<close>.
\<close>

datatype slot = Missing | Value string

fun slot_text :: "slot \<Rightarrow> string" where
  "slot_text Missing = ''NaN''"
| "slot_text (Value v) = v"

definition triple :: "string \<Rightarrow> slot \<Rightarrow> slot \<Rightarrow> string" where
  "triple x err ok = ''['' @ x @ '','' @ slot_text err @ '','' @ slot_text ok @ ''],''"

definition err_slot :: "'m env \<Rightarrow> Result \<Rightarrow> slot" where
  "err_slot f ri = (if Error ri = '''' then Missing else Value (fmtMillis f (Latency ri)))"

definition ok_slot :: "'m env \<Rightarrow> Result \<Rightarrow> slot" where
  "ok_slot f ri = (if Error ri = '''' then Value (fmtMillis f (Latency ri)) else Missing)"

subsection \<open>NewMetrics\<close>

text \<open>
  Modelled from the spec: \<^verbatim>\<open>NewMetrics\<close> (metrics.go is not among the sources), after the
  spec's sections 3 and 4.2. Ratios and means are zero on no records (``defined as zero,
  not an error''); a percentile is the latency at rank \<open>ceil(p * n) - 1\<close> of the latencies
  sorted ascending, the rank clamped to a valid index; the span runs from the first to the
  last timestamp and the wait is the last latency; the histogram is keyed by the string
  form of the code; the error set holds the distinct non-empty error strings in the order
  of their first occurrence.
\<close>

definition mean_rat :: "nat \<Rightarrow> nat \<Rightarrow> rat" where
  "mean_rat tot n = (if n = 0 then 0 else of_nat tot / of_nat n)"

definition mean_duration :: "int \<Rightarrow> nat \<Rightarrow> int" where
  "mean_duration tot n = (if n = 0 then 0 else tot div int n)"

definition percentile :: "rat \<Rightarrow> int list \<Rightarrow> int" where
  "percentile p xs =
     (let n = length xs
      in if n = 0 then 0
         else sort xs ! nat (max 0 (min (int n - 1) (\<lceil>p * of_nat n\<rceil> - 1))))"

definition count_code :: "(string \<rightharpoonup> int) \<Rightarrow> string \<Rightarrow> (string \<rightharpoonup> int)" where
  "count_code h k = h(k \<mapsto> (case h k of None \<Rightarrow> 1 | Some c \<Rightarrow> c + 1))"

fun error_strings :: "string list \<Rightarrow> Results \<Rightarrow> string list" where
  "error_strings seen [] = seen"
| "error_strings seen (x # xs) =
     (if Error x = '''' \<or> Error x \<in> set seen then error_strings seen xs
      else error_strings (seen @ [Error x]) xs)"

definition NewMetrics :: "Results \<Rightarrow> Metrics" where
  "NewMetrics r =
     (let n = length r; lats = map Latency r
      in \<lparr>Requests = n,
          Duration = (case r of [] \<Rightarrow> 0 | r0 # _ \<Rightarrow> Sub (Timestamp (last r)) (Timestamp r0)),
          Wait = (case r of [] \<Rightarrow> 0 | _ # _ \<Rightarrow> Latency (last r)),
          Latencies_Mean = mean_duration (sum_list lats) n,
          Latencies_P50 = percentile (1 / 2) lats,
          Latencies_P95 = percentile (95 / 100) lats,
          Latencies_P99 = percentile (99 / 100) lats,
          Latencies_Max = fold max lats 0,
          BytesIn_Total = sum_list (map BytesIn r),
          BytesIn_Mean = mean_rat (sum_list (map BytesIn r)) n,
          BytesOut_Total = sum_list (map BytesOut r),
          BytesOut_Mean = mean_rat (sum_list (map BytesOut r)) n,
          Success = mean_rat (length (filter (\<lambda>x. Error x = '''') r)) n,
          StatusCodes = fold (\<lambda>x h. count_code h (dec_int (Code x))) r Map.empty,
          Errors = error_strings [] r\<rparr>)"

subsection \<open>An environment to evaluate in\<close>

text \<open>
  For evaluating the reporters on concrete inputs: durations and instants are printed as
  their count of nanoseconds, a float as \<^verbatim>\<open>0.00\<close>, the tabwriter passes its text through and
  does not fail, \<^verbatim>\<open>json.Marshal\<close> returns an empty object, the charting library is empty, and
  \<^verbatim>\<open>.Request\<close> fails as it does for the \<^verbatim>\<open>Result\<close> of lib/results.go. \<open>failing_sink\<close> is the
  same with a tabwriter whose \<^verbatim>\<open>Flush\<close> fails.
\<close>

definition sample_env :: "Metrics env" where
  "sample_env = \<lparr>fmtDuration = dec_int, fmtFloat2 = (\<lambda>q. ''0.00''), fmtSeconds = dec_int,
     fmtMillis = dec_int, fmtTime = dec_int, tabwriter = (\<lambda>text. (text, None)),
     Marshal = (\<lambda>m. (Some ''{}'', None)), dygraphJSLibSrc = '''',
     Request = (\<lambda>r. Inl (Err ''cannot evaluate field Request''))\<rparr>"

definition failing_sink :: "Metrics env" where
  "failing_sink = sample_env\<lparr>tabwriter := (\<lambda>text. ('''', Some (Err ''short write'')))\<rparr>"

section \<open>Properties of Collect\<close>

lemma concat_update_mset:
  "i < length ts \<Longrightarrow>
   mset (concat (map f (ts[i := t]))) + mset (f (ts ! i)) = mset (concat (map f ts)) + mset (f t)"
proof (induction ts arbitrary: i)
  case Nil
  then show ?case by simp
next
  case (Cons a ts)
  show ?case
  proof (cases i)
    case 0
    then show ?thesis by simp
  next
    case (Suc j)
    with Cons.prems have "j < length ts" by simp
    from Cons.IH [OF this] Suc show ?thesis by (simp add: ac_simps)
  qed
qed

lemma sum_update_rank:
  "i < length ts \<Longrightarrow>
   sum_list (map g (ts[i := t])) + g (ts ! i) = sum_list (map g ts) + (g t :: nat)"
proof (induction ts arbitrary: i)
  case Nil
  then show ?case by simp
next
  case (Cons a ts)
  show ?case
  proof (cases i)
    case 0
    then show ?thesis by simp
  next
    case (Suc j)
    with Cons.prems have "j < length ts" by simp
    from Cons.IH [OF this] Suc show ?thesis by simp
  qed
qed

lemma running_update:
  "i < length (tasks s) \<Longrightarrow> tasks s' = (tasks s)[i := t] \<Longrightarrow>
   running s' + (if tasks s ! i = Finished then 0 else 1) = running s + (if t = Finished then 0 else 1)"
proof -
  have "j < length ts \<Longrightarrow>
      length (filter P (ts[j := t])) + (if P (ts ! j) then 1 else 0)
        = length (filter P ts) + (if P t then 1 else (0::nat))" for P and ts :: "task list" and j
  proof (induction ts arbitrary: j)
    case Nil
    then show ?case by simp
  next
    case (Cons a ts)
    show ?case
    proof (cases j)
      case 0
      then show ?thesis by simp
    next
      case (Suc k)
      with Cons.prems have "k < length ts" by simp
      from Cons.IH [OF this] Suc show ?thesis by simp
    qed
  qed
  from this [of i "tasks s" "\<lambda>t. t \<noteq> Finished"]
  show "i < length (tasks s) \<Longrightarrow> tasks s' = (tasks s)[i := t] \<Longrightarrow> ?thesis"
    by (auto simp: running_def split: if_splits)
qed

lemma collect_inv_init: "collect_inv ins (Collect ins)"
  by (simp add: collect_inv_def Collect_def outstanding_def running_def resc_closed_def)

lemma running_zero_iff: "running s = 0 \<longleftrightarrow> (\<forall>t \<in> set (tasks s). t = Finished)"
  by (auto simp: running_def filter_empty_conv)

lemma collect_inv_worker:
  assumes inv: "collect_inv ins s" and st: "worker_step i s = Some s'"
  shows "collect_inv ins s' \<and> steps_left s' < steps_left s"
proof -
  from st have len: "i < length (tasks s)" and np: "\<not> panicked s"
    by (auto split: if_splits)
  from st len np obtain rd where rd: "tasks s ! i = Running rd"
    by (cases "tasks s ! i") auto
  have mem: "tasks s ! i \<in> set (tasks s)" using len by simp
  with rd inv have nz: "running s \<noteq> 0" by (auto simp: running_zero_iff)
  with inv have open1: "\<not> resc_closed s" by (auto simp: collect_inv_def)
  then have open2: "\<not> errs_closed s" by (auto simp: resc_closed_def errs_closed_def)
  show ?thesis
  proof (cases rd)
    case Nil
    with st len np rd have s': "s' = s\<lparr>wg := wg s - 1, tasks := (tasks s)[i := Finished]\<rparr>"
      by simp
    from running_update [OF len, of s' Finished] s' rd
    have r: "running s' + 1 = running s" by simp
    from concat_update_mset [OF len, of remaining Finished] rd Nil
    have o: "outstanding s' = outstanding s" by (simp add: outstanding_def s')
    from sum_update_rank [OF len, of task_rank Finished] rd Nil
    have m: "steps_left s' < steps_left s" by (simp add: steps_left_def s')
    from inv r o have "collect_inv ins s'"
      by (auto simp: collect_inv_def s' resc_closed_def)
    with m show ?thesis by simp
  next
    case (Cons it rest)
    show ?thesis
    proof (cases it)
      case (Rec r)
      with st len np rd Cons open1
      have s': "s' = s\<lparr>resc := resc s @ [r], tasks := (tasks s)[i := Running rest]\<rparr>"
        by simp
      from running_update [OF len, of s' "Running rest"] s' rd
      have r': "running s' = running s" by simp
      from concat_update_mset [OF len, of remaining "Running rest"] rd Cons Rec
      have o: "outstanding s = add_mset (Rec r) (outstanding s')"
        by (simp add: outstanding_def s')
      from sum_update_rank [OF len, of task_rank "Running rest"] rd Cons
      have m: "steps_left s' < steps_left s" by (simp add: steps_left_def s')
      from inv r' o have "collect_inv ins s'"
        by (auto simp: collect_inv_def s' resc_closed_def)
      with m show ?thesis by simp
    next
      case (Corrupt e)
      with st len np rd Cons open2
      have s': "s' = s\<lparr>errs := errs s @ [e], tasks := (tasks s)[i := Running rest]\<rparr>"
        by simp
      from running_update [OF len, of s' "Running rest"] s' rd
      have r': "running s' = running s" by simp
      from concat_update_mset [OF len, of remaining "Running rest"] rd Cons Corrupt
      have o: "outstanding s = add_mset (Corrupt e) (outstanding s')"
        by (simp add: outstanding_def s')
      from sum_update_rank [OF len, of task_rank "Running rest"] rd Cons
      have m: "steps_left s' < steps_left s" by (simp add: steps_left_def s')
      from inv r' o have "collect_inv ins s'"
        by (auto simp: collect_inv_def s' resc_closed_def)
      with m show ?thesis by simp
    qed
  qed
qed

lemma collect_inv_step:
  assumes inv: "collect_inv ins s" and st: "step a s = Some s'"
  shows "collect_inv ins s' \<and> steps_left s' < steps_left s"
proof (cases a)
  case Caller
  with st inv show ?thesis
    by (auto simp: collect_inv_def steps_left_def outstanding_def running_def resc_closed_def
          ac_simps split: if_splits list.splits)
next
  case (Worker i)
  with st inv show ?thesis using collect_inv_worker by simp
next
  case Closer
  with st inv show ?thesis
    by (auto simp: collect_inv_def steps_left_def outstanding_def running_def resc_closed_def
          split: if_splits closer.splits)
qed

lemma collect_inv_run:
  "collect_inv ins s \<Longrightarrow> run sched s = Some s' \<Longrightarrow>
   collect_inv ins s' \<and> steps_left s' + length sched \<le> steps_left s"
proof (induction sched arbitrary: s)
  case Nil
  then show ?case by simp
next
  case (Cons a sched)
  from Cons.prems(2) obtain s1 where s1: "step a s = Some s1" and r: "run sched s1 = Some s'"
    by (auto split: option.splits)
  from collect_inv_step [OF Cons.prems(1) s1]
  have i1: "collect_inv ins s1" and m1: "steps_left s1 < steps_left s" by simp_all
  from Cons.IH [OF i1 r] m1 show ?case by simp
qed


lemma collect_progress:
  assumes inv: "collect_inv ins s" and op: "\<not> errs_closed s"
  shows "\<exists>a s'. step a s = Some s'"
proof -
  from inv have np: "\<not> panicked s" by (simp add: collect_inv_def)
  show ?thesis
  proof (cases "closer s")
    case NotStarted
    with np have "\<exists>s'. step Caller s = Some s'" by (cases "pending s") auto
    then show ?thesis by blast
  next
    case Waiting
    show ?thesis
    proof (cases "running s = 0")
      case True
      with inv have "wg s = 0" by (simp add: collect_inv_def)
      with Waiting np have "\<exists>s'. step Closer s = Some s'" by simp
      then show ?thesis by blast
    next
      case False
      then obtain t where t: "t \<in> set (tasks s)" "t \<noteq> Finished"
        by (auto simp: running_zero_iff)
      then obtain i where i: "i < length (tasks s)" "tasks s ! i = t"
        by (auto simp: in_set_conv_nth)
      from t(2) obtain rd where rd: "t = Running rd" by (cases t) auto
      from inv Waiting have o1: "\<not> resc_closed s" by (simp add: resc_closed_def)
      have "\<exists>s'. worker_step i s = Some s'"
      proof (cases rd)
        case Nil
        with i rd np show ?thesis by simp
      next
        case (Cons it rest)
        with i rd np o1 op show ?thesis by (cases it) simp_all
      qed
      then have "\<exists>s'. step (Worker i) s = Some s'" by simp
      then show ?thesis by blast
    qed
  next
    case ClosedResc
    with np have "\<exists>s'. step Closer s = Some s'" by simp
    then show ?thesis by blast
  next
    case ClosedBoth
    with op show ?thesis by (simp add: errs_closed_def)
  qed
qed

lemma collect_completes:
  "collect_inv ins s \<Longrightarrow> \<exists>sched s'. run sched s = Some s' \<and> errs_closed s'"
proof (induction "steps_left s" arbitrary: s rule: less_induct)
  case less
  show ?case
  proof (cases "errs_closed s")
    case True
    then have "run [] s = Some s \<and> errs_closed s" by simp
    then show ?thesis by blast
  next
    case False
    from collect_progress [OF less.prems False]
    obtain a s1 where s1: "step a s = Some s1" by blast
    from collect_inv_step [OF less.prems s1]
    have i1: "collect_inv ins s1" and m1: "steps_left s1 < steps_left s" by simp_all
    from less.hyps [OF m1 i1] obtain sched s' where
      r: "run sched s1 = Some s'" and c: "errs_closed s'" by blast
    from s1 r have "run (a # sched) s = Some s'" by simp
    with c show ?thesis by blast
  qed
qed

lemma delivered_parts:
  assumes eq: "image_mset Rec A + image_mset Corrupt B + M = mset xs"
  shows "A \<subseteq># mset (records_of xs) \<and> B \<subseteq># mset (errors_of xs)
    \<and> (M = {#} \<longrightarrow> A = mset (records_of xs) \<and> B = mset (errors_of xs))"
proof -
  have split: "image_mset Rec (mset (records_of ys)) + image_mset Corrupt (mset (errors_of ys))
      = mset ys" for ys
    by (induction ys rule: records_of.induct) simp_all
  have cr: "count (image_mset Rec P + image_mset Corrupt Q) (Rec r) = count P r" for P Q r
  proof -
    have "count (image_mset Corrupt Q) (Rec r) = 0" by (auto simp: count_eq_zero_iff)
    moreover have "count (image_mset Rec P) (Rec r) = count P r"
      by (induction P) simp_all
    ultimately show ?thesis by simp
  qed
  have ce: "count (image_mset Rec P + image_mset Corrupt Q) (Corrupt e) = count Q e" for P Q e
  proof -
    have "count (image_mset Rec P) (Corrupt e) = 0" by (auto simp: count_eq_zero_iff)
    moreover have "count (image_mset Corrupt Q) (Corrupt e) = count Q e"
      by (induction Q) simp_all
    ultimately show ?thesis by simp
  qed
  let ?L = "image_mset Rec A + image_mset Corrupt B"
  let ?R = "image_mset Rec (mset (records_of xs)) + image_mset Corrupt (mset (errors_of xs))"
  from eq split [of xs] have both: "?L + M = ?R" by simp
  have cnt: "count ?L x + count M x = count ?R x" for x
    using both by (metis count_union)
  have cntr: "count A r + count M (Rec r) = count (mset (records_of xs)) r" for r
    using cnt [of "Rec r"] by (simp only: cr)
  have cnte: "count B e + count M (Corrupt e) = count (mset (errors_of xs)) e" for e
    using cnt [of "Corrupt e"] by (simp only: ce)
  have "A \<subseteq># mset (records_of xs)"
  proof (rule mset_subset_eqI)
    fix r
    from cntr [of r] show "count A r \<le> count (mset (records_of xs)) r"
      by simp
  qed
  moreover have "B \<subseteq># mset (errors_of xs)"
  proof (rule mset_subset_eqI)
    fix e
    from cnte [of e] show "count B e \<le> count (mset (errors_of xs)) e"
      by simp
  qed
  moreover have "A = mset (records_of xs) \<and> B = mset (errors_of xs)" if "M = {#}"
  proof
    show "A = mset (records_of xs)"
    proof (rule multiset_eqI)
      fix r
      from cntr [of r] that show "count A r = count (mset (records_of xs)) r"
        by simp
    qed
    show "B = mset (errors_of xs)"
    proof (rule multiset_eqI)
      fix e
      from cnte [of e] that show "count B e = count (mset (errors_of xs)) e"
        by simp
    qed
  qed
  ultimately show ?thesis by blast
qed

lemma run_append: "run (xs @ ys) s = (case run xs s of None \<Rightarrow> None | Some s' \<Rightarrow> run ys s')"
  by (induction xs arbitrary: s) (auto split: option.splits)

lemma records_of_well_formed:
  "records_of (concat (map (map Rec) rss)) = concat rss
   \<and> errors_of (concat (map (map Rec) rss)) = []"
proof -
  have one: "records_of (map Rec rs @ ys) = rs @ records_of ys
      \<and> errors_of (map Rec rs @ ys) = errors_of ys" for rs ys
    by (induction rs) simp_all
  show ?thesis by (induction rss) (simp_all add: one)
qed

lemma collect_reachable:
  assumes r: "run sched (Collect ins) = Some s"
  shows "collect_inv ins s \<and> length sched \<le> steps_left (Collect ins)"
  using collect_inv_run [OF collect_inv_init r] by simp

lemma collect_delivered:
  assumes inv: "collect_inv ins s"
  shows "mset (resc s) \<subseteq># mset (records_of (concat ins))
    \<and> mset (errs s) \<subseteq># mset (errors_of (concat ins))
    \<and> (resc_closed s \<longrightarrow> length (tasks s) = length ins \<and> pending s = []
          \<and> (\<forall>t \<in> set (tasks s). t = Finished)
          \<and> mset (resc s) = mset (records_of (concat ins))
          \<and> mset (errs s) = mset (errors_of (concat ins)))"
proof -
  from inv have eq: "image_mset Rec (mset (resc s)) + image_mset Corrupt (mset (errs s))
      + outstanding s = mset (concat ins)"
    by (simp add: collect_inv_def)
  note parts = delivered_parts [OF eq]
  have "length (tasks s) = length ins \<and> pending s = [] \<and> (\<forall>t \<in> set (tasks s). t = Finished)
      \<and> mset (resc s) = mset (records_of (concat ins))
      \<and> mset (errs s) = mset (errors_of (concat ins))" if cl: "resc_closed s"
  proof -
    from inv cl have z: "running s = 0" and p: "pending s = []"
      and l: "length (tasks s) + length (pending s) = length ins"
      by (auto simp: collect_inv_def resc_closed_def)
    from z have f: "\<forall>t \<in> set (tasks s). t = Finished" by (simp add: running_zero_iff)
    then have "concat (map remaining (tasks s)) = []" by auto
    with p have "outstanding s = {#}" by (simp add: outstanding_def)
    with parts p f l show ?thesis by simp
  qed
  with parts show ?thesis by blast
qed

text \<open>
  Claim C1. For readers that each hold well-formed records only, followed by end-of-stream:
  under every schedule of the goroutines, what has been delivered on the record channel is
  always part of the records of the readers (no record twice, none made up) and nothing is
  sent on the error channel; once a channel is closed every reader has its goroutine, every
  goroutine has met end-of-stream, and the records delivered are exactly those of all
  readers, each once, the sum of the \<open>k_i\<close> in number; from every state reached the
  closing of both channels can still be reached, and no schedule is longer than
  \<open>steps_left\<close> of the start, so every schedule that runs as long as a goroutine can
  move ends with both channels closed.
\<close>

theorem Collect_delivers_every_record:
  assumes r: "run sched (Collect (map (map Rec) rss)) = Some s"
  shows "mset (resc s) \<subseteq># mset (concat rss) \<and> errs s = []
    \<and> (resc_closed s \<or> errs_closed s \<longrightarrow>
          length (tasks s) = length rss \<and> pending s = []
          \<and> (\<forall>t \<in> set (tasks s). t = Finished)
          \<and> mset (resc s) = mset (concat rss)
          \<and> length (resc s) = sum_list (map length rss))
    \<and> (\<exists>more s'. run (sched @ more) (Collect (map (map Rec) rss)) = Some s'
          \<and> resc_closed s' \<and> errs_closed s')
    \<and> length sched \<le> steps_left (Collect (map (map Rec) rss))"
proof -
  let ?ins = "map (map Rec) rss"
  from collect_reachable [OF r] have inv: "collect_inv ?ins s"
    and bound: "length sched \<le> steps_left (Collect ?ins)" by simp_all
  note wf = records_of_well_formed [of rss]
  from collect_delivered [OF inv] wf
  have sub: "mset (resc s) \<subseteq># mset (concat rss)" and noerr: "errs s = []"
    and cl: "resc_closed s \<Longrightarrow> length (tasks s) = length rss \<and> pending s = []
          \<and> (\<forall>t \<in> set (tasks s). t = Finished) \<and> mset (resc s) = mset (concat rss)"
    by simp_all
  have cl': "length (tasks s) = length rss \<and> pending s = []
          \<and> (\<forall>t \<in> set (tasks s). t = Finished)
          \<and> mset (resc s) = mset (concat rss)
          \<and> length (resc s) = sum_list (map length rss)" if "resc_closed s \<or> errs_closed s"
  proof -
    from that have c: "resc_closed s" by (auto simp: resc_closed_def errs_closed_def)
    from cl [OF c] have "mset (resc s) = mset (concat rss)" by simp
    then have "length (resc s) = length (concat rss)" by (rule mset_eq_length)
    with cl [OF c] show ?thesis by (simp add: length_concat)
  qed
  from collect_completes [OF inv] obtain more s' where
    m: "run more s = Some s'" and e: "errs_closed s'" by blast
  from r m have "run (sched @ more) (Collect ?ins) = Some s'" by (simp add: run_append)
  moreover from e have "resc_closed s'" by (simp add: resc_closed_def errs_closed_def)
  ultimately have fin: "\<exists>more s'. run (sched @ more) (Collect ?ins) = Some s'
      \<and> resc_closed s' \<and> errs_closed s'"
    using e by blast
  from sub noerr cl' fin bound show ?thesis by blast
qed


theorem Collect_delivers_every_record_witness:
  "run [Caller, Worker 0, Caller, Worker (Suc 0), Worker 0, Worker 0, Caller,
        Worker (Suc 0), Closer, Closer]
     (Collect (map (map Rec)
        [[\<lparr>Code = 200, Timestamp = 1, Latency = 2, BytesOut = 3, BytesIn = 4, Error = ''''\<rparr>,
          \<lparr>Code = 500, Timestamp = 5, Latency = 6, BytesOut = 7, BytesIn = 8, Error = ''x''\<rparr>],
         [\<lparr>Code = 200, Timestamp = 9, Latency = 1, BytesOut = 0, BytesIn = 0, Error = ''''\<rparr>]]))
   = Some \<lparr>pending = [], tasks = [Finished, Finished], wg = 0, closer = ClosedBoth,
       resc = [\<lparr>Code = 200, Timestamp = 1, Latency = 2, BytesOut = 3, BytesIn = 4, Error = ''''\<rparr>,
               \<lparr>Code = 200, Timestamp = 9, Latency = 1, BytesOut = 0, BytesIn = 0, Error = ''''\<rparr>,
               \<lparr>Code = 500, Timestamp = 5, Latency = 6, BytesOut = 7, BytesIn = 8, Error = ''x''\<rparr>],
       errs = [], panicked = False\<rparr>
   \<and> length [\<lparr>Code = 200, Timestamp = 1, Latency = 2, BytesOut = 3, BytesIn = 4, Error = ''''\<rparr>,
               \<lparr>Code = 200, Timestamp = 9, Latency = 1, BytesOut = 0, BytesIn = 0, Error = ''''\<rparr>,
               \<lparr>Code = 500, Timestamp = 5, Latency = 6, BytesOut = 7, BytesIn = 8, Error = ''x''\<rparr>]
     = sum_list (map length
        [[\<lparr>Code = 200, Timestamp = 1, Latency = 2, BytesOut = 3, BytesIn = 4, Error = ''''\<rparr>,
          \<lparr>Code = 500, Timestamp = 5, Latency = 6, BytesOut = 7, BytesIn = 8, Error = ''x''\<rparr>],
         [\<lparr>Code = 200, Timestamp = 9, Latency = 1, BytesOut = 0, BytesIn = 0, Error = ''''\<rparr>]])"
proof -
  let ?rss = "[[\<lparr>Code = 200, Timestamp = 1, Latency = 2, BytesOut = 3, BytesIn = 4, Error = ''''\<rparr>,
          \<lparr>Code = 500, Timestamp = 5, Latency = 6, BytesOut = 7, BytesIn = 8, Error = ''x''\<rparr>],
         [\<lparr>Code = 200, Timestamp = 9, Latency = 1, BytesOut = 0, BytesIn = 0, Error = ''''\<rparr>]]"
  let ?fin = "\<lparr>pending = [], tasks = [Finished, Finished], wg = 0, closer = ClosedBoth,
       resc = [\<lparr>Code = 200, Timestamp = 1, Latency = 2, BytesOut = 3, BytesIn = 4, Error = ''''\<rparr>,
               \<lparr>Code = 200, Timestamp = 9, Latency = 1, BytesOut = 0, BytesIn = 0, Error = ''''\<rparr>,
               \<lparr>Code = 500, Timestamp = 5, Latency = 6, BytesOut = 7, BytesIn = 8, Error = ''x''\<rparr>],
       errs = [], panicked = False\<rparr>"
  have h: "run [Caller, Worker 0, Caller, Worker (Suc 0), Worker 0, Worker 0, Caller,
        Worker (Suc 0), Closer, Closer] (Collect (map (map Rec) ?rss)) = Some ?fin"
    by (simp add: Collect_def resc_closed_def errs_closed_def)
  have c: "resc_closed ?fin \<or> errs_closed ?fin" by (simp add: resc_closed_def)
  from Collect_delivers_every_record [OF h] c
  have "length (resc ?fin) = sum_list (map length ?rss)" by blast
  with h show ?thesis by simp
qed

text \<open>
  Claim C2. In every state that \<^verbatim>\<open>Collect\<close> reaches: a goroutine whose next record fails to
  decode publishes that one error on the error channel and goes on with the rest of its
  reader; a goroutine finishes only from a reader at end-of-stream; the errors published are
  always part of the failed records of the readers; when the channels are closed the errors
  published are exactly the failed records, one error each, and the records delivered are
  exactly the valid records of all readers, those behind a failed record included; and the
  closing can be reached from every state.
\<close>

theorem Collect_decode_error_is_not_fatal:
  assumes r: "run sched (Collect ins) = Some s"
  shows "(\<forall>i e rest. i < length (tasks s) \<and> tasks s ! i = Running (Corrupt e # rest) \<longrightarrow>
            step (Worker i) s
              = Some (s\<lparr>errs := errs s @ [e], tasks := (tasks s)[i := Running rest]\<rparr>))
    \<and> (\<forall>i s'. step (Worker i) s = Some s' \<and> i < length (tasks s') \<and> tasks s' ! i = Finished
            \<longrightarrow> tasks s ! i = Running [])
    \<and> mset (errs s) \<subseteq># mset (errors_of (concat ins))
    \<and> mset (resc s) \<subseteq># mset (records_of (concat ins))
    \<and> (errs_closed s \<longrightarrow> mset (errs s) = mset (errors_of (concat ins))
          \<and> mset (resc s) = mset (records_of (concat ins)))
    \<and> (\<exists>more s'. run (sched @ more) (Collect ins) = Some s' \<and> errs_closed s')"
proof -
  from collect_reachable [OF r] have inv: "collect_inv ins s" by simp
  then have np: "\<not> panicked s" by (simp add: collect_inv_def)
  have publish: "step (Worker i) s
      = Some (s\<lparr>errs := errs s @ [e], tasks := (tasks s)[i := Running rest]\<rparr>)"
    if len: "i < length (tasks s)" and t: "tasks s ! i = Running (Corrupt e # rest)" for i e rest
  proof -
    from len have "tasks s ! i \<in> set (tasks s)" by simp
    with t have "running s \<noteq> 0" by (auto simp: running_zero_iff)
    with inv have "\<not> resc_closed s" by (auto simp: collect_inv_def)
    then have "\<not> errs_closed s" by (simp add: resc_closed_def errs_closed_def)
    with np len t show ?thesis by simp
  qed
  have eof: "tasks s ! i = Running []"
    if st: "step (Worker i) s = Some s'" and len: "i < length (tasks s')"
      and fin: "tasks s' ! i = Finished" for i s'
  proof -
    from st have li: "i < length (tasks s)" by (auto split: if_splits)
    from st li obtain rd where rd: "tasks s ! i = Running rd"
      by (cases "tasks s ! i") (auto split: if_splits)
    show ?thesis
    proof (cases rd)
      case Nil
      with rd show ?thesis by simp
    next
      case (Cons it rest)
      with st li rd fin have False
        by (cases it) (auto split: if_splits)
      then show ?thesis ..
    qed
  qed
  note d = collect_delivered [OF inv]
  have closed: "mset (errs s) = mset (errors_of (concat ins))
      \<and> mset (resc s) = mset (records_of (concat ins))" if "errs_closed s"
  proof -
    from that have "resc_closed s" by (simp add: resc_closed_def errs_closed_def)
    with d show ?thesis by blast
  qed
  from collect_completes [OF inv] obtain more s' where
    m: "run more s = Some s'" and e: "errs_closed s'" by blast
  from r m have "run (sched @ more) (Collect ins) = Some s'" by (simp add: run_append)
  with e have fin: "\<exists>more s'. run (sched @ more) (Collect ins) = Some s' \<and> errs_closed s'"
    by blast
  from publish eof d closed fin show ?thesis by blast
qed

theorem Collect_decode_error_is_not_fatal_witness:
  "run [Caller, Caller, Worker 0, Worker 0, Worker 0, Worker 0, Closer, Closer]
     (Collect
        [[Rec \<lparr>Code = 200, Timestamp = 1, Latency = 2, BytesOut = 3, BytesIn = 4, Error = ''''\<rparr>,
          Corrupt ''gob: bad data'',
          Rec \<lparr>Code = 200, Timestamp = 9, Latency = 1, BytesOut = 0, BytesIn = 0, Error = ''''\<rparr>]])
   = Some \<lparr>pending = [], tasks = [Finished], wg = 0, closer = ClosedBoth,
       resc = [\<lparr>Code = 200, Timestamp = 1, Latency = 2, BytesOut = 3, BytesIn = 4, Error = ''''\<rparr>,
               \<lparr>Code = 200, Timestamp = 9, Latency = 1, BytesOut = 0, BytesIn = 0, Error = ''''\<rparr>],
       errs = [''gob: bad data''], panicked = False\<rparr>
   \<and> mset [''gob: bad data'']
     = mset (errors_of (concat
        [[Rec \<lparr>Code = 200, Timestamp = 1, Latency = 2, BytesOut = 3, BytesIn = 4, Error = ''''\<rparr>,
          Corrupt ''gob: bad data'',
          Rec \<lparr>Code = 200, Timestamp = 9, Latency = 1, BytesOut = 0, BytesIn = 0, Error = ''''\<rparr>]]))"
proof -
  let ?ins = "[[Rec \<lparr>Code = 200, Timestamp = 1, Latency = 2, BytesOut = 3, BytesIn = 4, Error = ''''\<rparr>,
          Corrupt ''gob: bad data'',
          Rec \<lparr>Code = 200, Timestamp = 9, Latency = 1, BytesOut = 0, BytesIn = 0, Error = ''''\<rparr>]]"
  let ?fin = "\<lparr>pending = [], tasks = [Finished], wg = 0, closer = ClosedBoth,
       resc = [\<lparr>Code = 200, Timestamp = 1, Latency = 2, BytesOut = 3, BytesIn = 4, Error = ''''\<rparr>,
               \<lparr>Code = 200, Timestamp = 9, Latency = 1, BytesOut = 0, BytesIn = 0, Error = ''''\<rparr>],
       errs = [''gob: bad data''], panicked = False\<rparr>"
  have h: "run [Caller, Caller, Worker 0, Worker 0, Worker 0, Worker 0, Closer, Closer]
      (Collect ?ins) = Some ?fin"
    by (simp add: Collect_def resc_closed_def errs_closed_def)
  have c: "errs_closed ?fin" by (simp add: errs_closed_def)
  from Collect_decode_error_is_not_fatal [OF h] c
  have "mset (errs ?fin) = mset (errors_of (concat ?ins))" by blast
  with h show ?thesis by simp
qed

section \<open>Properties of ReportPlot\<close>

lemma series_loop_drop:
  "i \<le> length r \<Longrightarrow>
   series_loop f r i acc = Inr (acc @ concat (map (point f (r ! 0)) (drop i r)))"
proof (induction f r i acc rule: series_loop.induct)
  case (1 f r i series)
  show ?case
  proof (cases "i < length r")
    case True
    then have z: "0 < length r" by (cases r) auto
    from True have d: "drop i r = r ! i # drop (Suc i) r" by (simp add: Cons_nth_drop_Suc)
    from True z have "series_loop f r i series
        = series_loop f r (i + 1) (series @ point f (r ! 0) (r ! i))"
      by (subst series_loop.simps) (simp add: index_def)
    also from True z have "\<dots> = Inr ((series @ point f (r ! 0) (r ! i))
        @ concat (map (point f (r ! 0)) (drop (i + 1) r)))"
      by (intro "1.IH") (simp_all add: index_def)
    finally show ?thesis by (simp add: d)
  next
    case False
    with "1.prems" have "i = length r" by simp
    then show ?thesis by (subst series_loop.simps) simp
  qed
qed

lemma series_loop_all:
  "series_loop f r 0 [] = Inr (concat (map (point f (r ! 0)) r))"
  using series_loop_drop [of 0 r f "[]"] by simp

lemma point_triple:
  "point f r0 ri
     = triple (fmtSeconds f (Sub (Timestamp ri) (Timestamp r0))) (err_slot f ri) (ok_slot f ri)"
  by (simp add: point_def triple_def err_slot_def ok_slot_def Let_def)

text \<open>
  Claim C3. The series that \<^verbatim>\<open>ReportPlot\<close> generates is, record by record, a triple of the
  seconds, the slot of the error series and the slot of the success series. For every
  record of the collection exactly one of the two slots holds the latency and the other
  the missing-value marker \<^verbatim>\<open>NaN\<close>: the success slot is the populated one if and only if
  the error string is empty, the error slot if and only if it is not; and the status code
  changes neither the slots nor the text of the point.
\<close>

theorem point_fills_one_slot:
  "series_loop f r 0 [] =
     Inr (concat (map (\<lambda>ri. triple (fmtSeconds f (Sub (Timestamp ri) (Timestamp (r ! 0))))
                               (err_slot f ri) (ok_slot f ri)) r))
   \<and> (\<forall>ri \<in> set r.
        (ok_slot f ri = Value (fmtMillis f (Latency ri)) \<and> err_slot f ri = Missing
            \<longleftrightarrow> Error ri = '''')
      \<and> (err_slot f ri = Value (fmtMillis f (Latency ri)) \<and> ok_slot f ri = Missing
            \<longleftrightarrow> Error ri \<noteq> '''')
      \<and> (err_slot f ri = Missing) \<noteq> (ok_slot f ri = Missing)
      \<and> (\<forall>c. err_slot f (ri\<lparr>Code := c\<rparr>) = err_slot f ri
             \<and> ok_slot f (ri\<lparr>Code := c\<rparr>) = ok_slot f ri
             \<and> point f (r ! 0) (ri\<lparr>Code := c\<rparr>) = point f (r ! 0) ri))"
proof -
  have "series_loop f r 0 [] =
     Inr (concat (map (\<lambda>ri. triple (fmtSeconds f (Sub (Timestamp ri) (Timestamp (r ! 0))))
                               (err_slot f ri) (ok_slot f ri)) r))"
  proof -
    have "point f (r ! 0) = (\<lambda>ri. triple (fmtSeconds f (Sub (Timestamp ri) (Timestamp (r ! 0))))
                               (err_slot f ri) (ok_slot f ri))"
      by (rule ext) (rule point_triple)
    then show ?thesis by (simp add: series_loop_all)
  qed
  moreover have "(\<forall>ri \<in> set r.
        (ok_slot f ri = Value (fmtMillis f (Latency ri)) \<and> err_slot f ri = Missing
            \<longleftrightarrow> Error ri = '''')
      \<and> (err_slot f ri = Value (fmtMillis f (Latency ri)) \<and> ok_slot f ri = Missing
            \<longleftrightarrow> Error ri \<noteq> '''')
      \<and> (err_slot f ri = Missing) \<noteq> (ok_slot f ri = Missing)
      \<and> (\<forall>c. err_slot f (ri\<lparr>Code := c\<rparr>) = err_slot f ri
             \<and> ok_slot f (ri\<lparr>Code := c\<rparr>) = ok_slot f ri
             \<and> point f (r ! 0) (ri\<lparr>Code := c\<rparr>) = point f (r ! 0) ri))"
    by (simp add: err_slot_def ok_slot_def point_def)
  ultimately show ?thesis by blast
qed

text \<open>
  Claim C8. On no records \<^verbatim>\<open>ReportPlot\<close> does not panic (the loop does not run, so no record
  is read, the first one included) and returns no error: the series is empty, so the chart
  is given \<^verbatim>\<open>[]\<close>, and the table holds the row \<^verbatim>\<open><tr><b>No Results found</b></tr>\<close>.
\<close>

theorem ReportPlot_no_records:
  "series_loop f [] 0 [] = Inr ''''
   \<and> truncate_comma '''' = ''''
   \<and> ReportPlot f [] =
       Inr (Some (tpl_head @ dygraphJSLibSrc f @ tpl_chart @ ''[]'' @ tpl_options
                  @ NL @ ''   <tr><b>No Results found</b></tr>'' @ NL @ ''  '' @ tpl_tail),
            None)"
proof -
  have s: "series_loop f [] 0 [] = Inr ''''" by (subst series_loop.simps) simp
  have t: "truncate_comma '''' = ''''" by (simp add: truncate_comma_def)
  have e: "Execute f js '''' [] =
      (tpl_head @ js @ tpl_chart @ ''[]'' @ tpl_options
         @ NL @ ''   <tr><b>No Results found</b></tr>'' @ NL @ ''  '' @ tpl_tail, None)" for js
    by (simp add: Execute_def exec_range_def no_results_def)
  from s t e show ?thesis by (simp add: ReportPlot_def)
qed

text \<open>
  Claim C10. For a collection that is not empty the series holds one point for each record,
  in the order of the collection; the point of record \<open>i\<close> starts with the seconds of
  \<^verbatim>\<open>r[i].Timestamp.Sub(r[0].Timestamp)\<close>, the record's timestamp minus that of the first
  record of the collection as given (the difference itself whenever it fits a duration);
  for the first record that is 0, and for a record whose timestamp is before that of the
  first record it is negative.
\<close>

theorem series_in_given_order:
  assumes ne: "r \<noteq> []"
  shows "series_loop f r 0 [] = Inr (concat (map (point f (r ! 0)) r))
    \<and> (\<forall>i < length r. \<exists>slots.
          point f (r ! 0) (r ! i)
            = ''['' @ fmtSeconds f (Sub (Timestamp (r ! i)) (Timestamp (r ! 0))) @ '','' @ slots)
    \<and> Sub (Timestamp (r ! 0)) (Timestamp (r ! 0)) = 0
    \<and> (\<forall>i < length r.
          - (2 ^ 63) \<le> Timestamp (r ! i) - Timestamp (r ! 0)
          \<and> Timestamp (r ! i) - Timestamp (r ! 0) \<le> 2 ^ 63 - 1
          \<longrightarrow> Sub (Timestamp (r ! i)) (Timestamp (r ! 0)) = Timestamp (r ! i) - Timestamp (r ! 0))
    \<and> (\<forall>i < length r. Timestamp (r ! i) < Timestamp (r ! 0)
          \<longrightarrow> Sub (Timestamp (r ! i)) (Timestamp (r ! 0)) < 0)"
proof -
  have a: "series_loop f r 0 [] = Inr (concat (map (point f (r ! 0)) r))"
    by (rule series_loop_all)
  have b: "\<exists>slots. point f r0 ri
      = ''['' @ fmtSeconds f (Sub (Timestamp ri) (Timestamp r0)) @ '','' @ slots" for r0 ri
    by (simp add: point_def Let_def)
  have c: "Sub t t = 0" for t by (simp add: Sub_def)
  have d: "- (2 ^ 63) \<le> t - u \<Longrightarrow> t - u \<le> 2 ^ 63 - 1 \<Longrightarrow> Sub t u = t - u" for t u
    by (simp add: Sub_def)
  have e: "t < u \<Longrightarrow> Sub t u < 0" for t u
    by (simp add: Sub_def)
  from a b c d e show ?thesis by blast
qed

theorem point_fills_one_slot_witness:
  "series_loop sample_env
     [\<lparr>Code = 200, Timestamp = 1, Latency = 2, BytesOut = 3, BytesIn = 4, Error = ''''\<rparr>,
      \<lparr>Code = 200, Timestamp = 5, Latency = 6, BytesOut = 7, BytesIn = 8, Error = ''x''\<rparr>] 0 []
     = Inr ''[0,NaN,2],[4,6,NaN],''
   \<and> err_slot sample_env
        \<lparr>Code = 200, Timestamp = 1, Latency = 2, BytesOut = 3, BytesIn = 4, Error = ''''\<rparr> = Missing
   \<and> ok_slot sample_env
        \<lparr>Code = 200, Timestamp = 5, Latency = 6, BytesOut = 7, BytesIn = 8, Error = ''x''\<rparr> = Missing"
  using point_fills_one_slot [of sample_env
     "[\<lparr>Code = 200, Timestamp = 1, Latency = 2, BytesOut = 3, BytesIn = 4, Error = ''''\<rparr>,
       \<lparr>Code = 200, Timestamp = 5, Latency = 6, BytesOut = 7, BytesIn = 8, Error = ''x''\<rparr>]"]
  by (simp add: triple_def err_slot_def ok_slot_def sample_env_def Sub_def dec_int_def
        dec_nat.simps)

theorem series_in_given_order_witness:
  "[\<lparr>Code = 200, Timestamp = 5, Latency = 2, BytesOut = 3, BytesIn = 4, Error = ''''\<rparr>,
    \<lparr>Code = 200, Timestamp = 3, Latency = 6, BytesOut = 7, BytesIn = 8, Error = ''x''\<rparr>] \<noteq> []
   \<and> series_loop sample_env
     [\<lparr>Code = 200, Timestamp = 5, Latency = 2, BytesOut = 3, BytesIn = 4, Error = ''''\<rparr>,
      \<lparr>Code = 200, Timestamp = 3, Latency = 6, BytesOut = 7, BytesIn = 8, Error = ''x''\<rparr>] 0 []
     = Inr ''[0,NaN,2],[-2,6,NaN],''
   \<and> Sub 3 5 = - 2"
proof -
  have ne: "[\<lparr>Code = 200, Timestamp = 5, Latency = 2, BytesOut = 3, BytesIn = 4, Error = ''''\<rparr>,
    \<lparr>Code = 200, Timestamp = 3, Latency = 6, BytesOut = 7, BytesIn = 8, Error = ''x''\<rparr>] \<noteq> []"
    by simp
  from series_in_given_order [OF ne, of sample_env]
  show ?thesis
    by (simp add: point_def sample_env_def Sub_def dec_int_def dec_nat.simps)
qed

section \<open>Properties of ReportText\<close>










section \<open>Properties of NewMetrics\<close>

text \<open>
  Claim C5. On no records the statistics are computed without a division by zero and every
  count, every mean and the success ratio are zero (the durations and percentiles too, the
  histogram and the error set are empty).
\<close>

theorem NewMetrics_empty:
  "NewMetrics [] =
     \<lparr>Requests = 0, Duration = 0, Wait = 0, Latencies_Mean = 0, Latencies_P50 = 0,
      Latencies_P95 = 0, Latencies_P99 = 0, Latencies_Max = 0, BytesIn_Total = 0,
      BytesIn_Mean = 0, BytesOut_Total = 0, BytesOut_Mean = 0, Success = 0,
      StatusCodes = Map.empty, Errors = []\<rparr>"
  by (simp add: NewMetrics_def mean_rat_def mean_duration_def percentile_def)

section \<open>All or nothing\<close>

lemma ReportText_cases:
  "ReportText f m kvs =
     (case snd (tabwriter f (report_text f m kvs)) of
        Some err \<Rightarrow> (Some '''', Some err)
      | None \<Rightarrow> (Some (fst (tabwriter f (report_text f m kvs))), None))"
  by (cases "tabwriter f (report_text f m kvs)") (simp add: ReportText_def split: option.splits)

lemma ReportPlot_cases:
  "ReportPlot f r =
     (case snd (exec_range f r) of
        Some err \<Rightarrow> Inr (None, Some err)
      | None \<Rightarrow>
          Inr (Some (tpl_head @ dygraphJSLibSrc f @ tpl_chart @ ''[''
                     @ truncate_comma (concat (map (point f (r ! 0)) r)) @ '']'' @ tpl_options
                     @ fst (exec_range f r) @ tpl_tail), None))"
  by (cases "exec_range f r")
    (simp add: ReportPlot_def series_loop_all Execute_def Let_def split: option.splits)

text \<open>
  Claim C9. A reporter delivers all or nothing. When \<^verbatim>\<open>ReportText\<close> returns an error its
  payload is the empty slice, and when it returns none its payload is all that the
  tabwriter passed on. When \<^verbatim>\<open>ReportPlot\<close> returns an error its payload is nil (what the
  template had written before the error is dropped), and when it returns none its payload
  is the whole document, down to the closing text of the template; it never panics.
  \<^verbatim>\<open>ReportJSON\<close> returns the pair of \<^verbatim>\<open>json.Marshal\<close> as it is.
\<close>

theorem reporters_all_or_nothing:
  "(\<forall>p e. ReportText f m kvs = (p, Some e) \<longrightarrow> p = Some '''')
   \<and> (\<forall>p. ReportText f m kvs = (p, None) \<longrightarrow>
          p = Some (fst (tabwriter f (report_text f m kvs)))
          \<and> snd (tabwriter f (report_text f m kvs)) = None)
   \<and> (\<forall>p e. ReportPlot f r = Inr (p, Some e) \<longrightarrow> p = None)
   \<and> (\<forall>p. ReportPlot f r = Inr (p, None) \<longrightarrow>
          p = Some (tpl_head @ dygraphJSLibSrc f @ tpl_chart @ ''[''
                    @ truncate_comma (concat (map (point f (r ! 0)) r)) @ '']'' @ tpl_options
                    @ fst (exec_range f r) @ tpl_tail)
          \<and> snd (exec_range f r) = None)
   \<and> (\<forall>p. ReportPlot f r \<noteq> Inl p)
   \<and> ReportJSON f m = Marshal f m"
proof -
  have t: "(\<forall>p e. ReportText f m kvs = (p, Some e) \<longrightarrow> p = Some '''')
   \<and> (\<forall>p. ReportText f m kvs = (p, None) \<longrightarrow>
          p = Some (fst (tabwriter f (report_text f m kvs)))
          \<and> snd (tabwriter f (report_text f m kvs)) = None)"
    by (auto simp: ReportText_cases split: option.splits)
  have p: "(\<forall>p e. ReportPlot f r = Inr (p, Some e) \<longrightarrow> p = None)
   \<and> (\<forall>p. ReportPlot f r = Inr (p, None) \<longrightarrow>
          p = Some (tpl_head @ dygraphJSLibSrc f @ tpl_chart @ ''[''
                    @ truncate_comma (concat (map (point f (r ! 0)) r)) @ '']'' @ tpl_options
                    @ fst (exec_range f r) @ tpl_tail)
          \<and> snd (exec_range f r) = None)
   \<and> (\<forall>p. ReportPlot f r \<noteq> Inl p)"
    by (auto simp: ReportPlot_cases split: option.splits)
  from t p show ?thesis by (simp add: ReportJSON_def)
qed



theorem reporters_all_or_nothing_witness:
  "ReportText failing_sink
     \<lparr>Requests = 0, Duration = 0, Wait = 0, Latencies_Mean = 0, Latencies_P50 = 0,
      Latencies_P95 = 0, Latencies_P99 = 0, Latencies_Max = 0, BytesIn_Total = 0,
      BytesIn_Mean = 0, BytesOut_Total = 0, BytesOut_Mean = 0, Success = 0,
      StatusCodes = Map.empty, Errors = []\<rparr> [] = (Some '''', Some (Err ''short write''))
   \<and> fst (ReportText sample_env
     \<lparr>Requests = 0, Duration = 0, Wait = 0, Latencies_Mean = 0, Latencies_P50 = 0,
      Latencies_P95 = 0, Latencies_P99 = 0, Latencies_Max = 0, BytesIn_Total = 0,
      BytesIn_Mean = 0, BytesOut_Total = 0, BytesOut_Mean = 0, Success = 0,
      StatusCodes = Map.empty, Errors = []\<rparr> [])
     = Some (report_text sample_env
     \<lparr>Requests = 0, Duration = 0, Wait = 0, Latencies_Mean = 0, Latencies_P50 = 0,
      Latencies_P95 = 0, Latencies_P99 = 0, Latencies_Max = 0, BytesIn_Total = 0,
      BytesIn_Mean = 0, BytesOut_Total = 0, BytesOut_Mean = 0, Success = 0,
      StatusCodes = Map.empty, Errors = []\<rparr> [])
   \<and> ReportPlot sample_env
        [\<lparr>Code = 200, Timestamp = 1, Latency = 2, BytesOut = 3, BytesIn = 4, Error = ''''\<rparr>]
     = Inr (None, Some (Err ''cannot evaluate field Request''))
   \<and> ReportPlot sample_env []
     = Inr (Some (tpl_head @ tpl_chart @ ''[]'' @ tpl_options @ no_results @ tpl_tail), None)"
proof -
  define m where "m = \<lparr>Requests = 0, Duration = 0, Wait = 0, Latencies_Mean = 0,
      Latencies_P50 = 0, Latencies_P95 = 0, Latencies_P99 = 0, Latencies_Max = 0,
      BytesIn_Total = 0, BytesIn_Mean = 0, BytesOut_Total = 0, BytesOut_Mean = 0, Success = 0,
      StatusCodes = Map.empty, Errors = []\<rparr>"
  define r where
    "r = [\<lparr>Code = 200, Timestamp = 1, Latency = 2, BytesOut = 3, BytesIn = 4, Error = ''''\<rparr>]"
  define body where "body = report_text sample_env m []"
  have tw: "tabwriter sample_env x = (x, None)" for x by (simp add: sample_env_def)
  have tw': "tabwriter failing_sink x = ('''', Some (Err ''short write''))" for x
    by (simp add: failing_sink_def)
  have js: "dygraphJSLibSrc sample_env = ''''" by (simp add: sample_env_def)
  have rq: "Request sample_env x = Inl (Err ''cannot evaluate field Request'')" for x
    by (simp add: sample_env_def)
  have a: "ReportText failing_sink m []
      = (fst (ReportText failing_sink m []), Some (Err ''short write''))"
    by (simp add: ReportText_def tw')
  have b: "ReportText sample_env m [] = (fst (ReportText sample_env m []), None)"
    by (simp add: ReportText_def tw)
  have xr: "exec_range sample_env r = (fst (exec_range sample_env r),
      Some (Err ''cannot evaluate field Request''))"
    by (simp add: exec_range_def exec_row_def rq r_def)
  have c: "\<exists>p. ReportPlot sample_env r = Inr (p, Some (Err ''cannot evaluate field Request''))"
    by (subst ReportPlot_cases, subst xr) simp
  have e: "exec_range sample_env [] = (no_results, None)" by (simp add: exec_range_def)
  have d: "\<exists>p. ReportPlot sample_env [] = Inr (p, None)"
    by (subst ReportPlot_cases, subst e) simp
  note fail = reporters_all_or_nothing [of failing_sink m "[]" r]
  note pass = reporters_all_or_nothing [of sample_env m "[]" "[]"]
  from fail a have 1: "fst (ReportText failing_sink m []) = Some ''''" by blast
  from pass b have 2: "fst (ReportText sample_env m []) = Some (fst (tabwriter sample_env body))"
    unfolding body_def by blast
  from c obtain p where p: "ReportPlot sample_env r
      = Inr (p, Some (Err ''cannot evaluate field Request''))" by blast
  from reporters_all_or_nothing [of sample_env m "[]" r] p have 3: "p = None" by blast
  from d obtain q where q: "ReportPlot sample_env [] = Inr (q, None)" by blast
  from pass q have 4: "q = Some (tpl_head @ dygraphJSLibSrc sample_env @ tpl_chart @ ''[''
                    @ truncate_comma (concat (map (point sample_env ([] ! 0)) [])) @ '']''
                    @ tpl_options @ fst (exec_range sample_env []) @ tpl_tail)"
    by blast
  from 1 a have g1: "ReportText failing_sink m [] = (Some '''', Some (Err ''short write''))"
    by simp
  from 2 have g2: "fst (ReportText sample_env m []) = Some (report_text sample_env m [])"
    by (simp add: tw body_def)
  from p 3 have g3: "ReportPlot sample_env r
      = Inr (None, Some (Err ''cannot evaluate field Request''))" by simp
  from q 4 have g4: "ReportPlot sample_env []
     = Inr (Some (tpl_head @ tpl_chart @ ''[]'' @ tpl_options @ no_results @ tpl_tail), None)"
    by (simp add: js e truncate_comma_def)
  from g1 g2 g3 g4 show ?thesis unfolding m_def r_def by blast
qed

section \<open>The colour of a row\<close>

text \<open>
  Claim C7. The code does not do what the claim says. For a collection of one record with
  an empty error string and the status code 201: the chart's series has the record in the
  success series, as the claim's discriminator has it, but the row that the template
  writes for it opens with the failure colour \<^verbatim>\<open>#FA7878\<close>, since the template tests
  \<^verbatim>\<open>eq .Code 200\<close>; and the execution stops in that row at \<^verbatim>\<open>.Request.Method\<close>, a field
  that \<^verbatim>\<open>Result\<close> does not have, so \<^verbatim>\<open>ReportPlot\<close> returns nil and the error and no listing.
\<close>

theorem ReportPlot_row_of_code_201:
  "Error \<lparr>Code = 201, Timestamp = 1, Latency = 2, BytesOut = 3, BytesIn = 4, Error = ''''\<rparr> = ''''
   \<and> ok_slot sample_env
        \<lparr>Code = 201, Timestamp = 1, Latency = 2, BytesOut = 3, BytesIn = 4, Error = ''''\<rparr>
       = Value ''2''
   \<and> err_slot sample_env
        \<lparr>Code = 201, Timestamp = 1, Latency = 2, BytesOut = 3, BytesIn = 4, Error = ''''\<rparr>
       = Missing
   \<and> exec_range sample_env
        [\<lparr>Code = 201, Timestamp = 1, Latency = 2, BytesOut = 3, BytesIn = 4, Error = ''''\<rparr>]
       = (row_open @ '' #FA7878 '' @ row_first_cell @ ''1'' @ next_cell @ ''201'' @ next_cell,
          Some (Err ''cannot evaluate field Request''))
   \<and> ReportPlot sample_env
        [\<lparr>Code = 201, Timestamp = 1, Latency = 2, BytesOut = 3, BytesIn = 4, Error = ''''\<rparr>]
       = Inr (None, Some (Err ''cannot evaluate field Request''))"
proof -
  define x where
    "x = \<lparr>Code = 201, Timestamp = 1, Latency = 2, BytesOut = 3, BytesIn = 4, Error = ''''\<rparr>"
  have rq: "Request sample_env y = Inl (Err ''cannot evaluate field Request'')" for y
    by (simp add: sample_env_def)
  have ft: "fmtTime sample_env = dec_int" and fm: "fmtMillis sample_env = dec_int"
    by (simp_all add: sample_env_def)
  have d1: "dec_int 1 = ''1''" and d2: "dec_int 2 = ''2''" and d201: "dec_int 201 = ''201''"
    by (simp_all add: dec_int_def dec_nat.simps)
  have e: "Error x = ''''" by (simp add: x_def)
  have ok: "ok_slot sample_env x = Value ''2''" by (simp add: ok_slot_def fm x_def d2)
  have er: "err_slot sample_env x = Missing" by (simp add: err_slot_def x_def)
  have col: "row_color x = '' #FA7878 ''" by (simp add: row_color_def color_err_def x_def)
  have row: "exec_row sample_env x
      = (row_open @ '' #FA7878 '' @ row_first_cell @ ''1'' @ next_cell @ ''201'' @ next_cell,
         Some (Err ''cannot evaluate field Request''))"
    by (simp add: exec_row_def rq ft col) (simp add: x_def d1 d201)
  then have rng: "exec_range sample_env [x]
      = (row_open @ '' #FA7878 '' @ row_first_cell @ ''1'' @ next_cell @ ''201'' @ next_cell,
         Some (Err ''cannot evaluate field Request''))"
    by (simp add: exec_range_def)
  have "ReportPlot sample_env [x] = Inr (None, Some (Err ''cannot evaluate field Request''))"
    by (subst ReportPlot_cases, subst rng) simp
  with e ok er rng show ?thesis unfolding x_def by blast
qed

end
